theory Spec2Isabelle
  imports Main
begin

chapter \<open>The program\<close>

section \<open>Strings\<close>

text \<open>
  JavaScript strings are modelled as HOL strings. A \<^typ>\<open>char\<close> stands for a code
  unit below 256; the classes below are the ECMAScript ones cut down to that range.
\<close>

definition code :: "char \<Rightarrow> nat" where
  "code c = of_char c"

text \<open>The regular expression class \<open>\s\<close>, which is also what \<open>trim\<close> strips:
  tab, line feed, vertical tab, form feed, carriage return, space, no-break space.\<close>

definition is_space :: "char \<Rightarrow> bool" where
  "is_space c = (code c \<in> {9, 10, 11, 12, 13, 32, 160})"

text \<open>The regular expression class \<open>\d\<close>.\<close>

definition is_digit :: "char \<Rightarrow> bool" where
  "is_digit c = (48 \<le> code c \<and> code c \<le> 57)"

definition lower_char :: "char \<Rightarrow> char" where
  "lower_char c =
     (let n = code c in
      if 65 \<le> n \<and> n \<le> 90 then char_of (n + 32)
      else if 192 \<le> n \<and> n \<le> 222 \<and> n \<noteq> 215 then char_of (n + 32)
      else c)"

definition toLowerCase :: "string \<Rightarrow> string" where
  "toLowerCase s = map lower_char s"

definition trim :: "string \<Rightarrow> string" where
  "trim s = rev (dropWhile is_space (rev (dropWhile is_space s)))"

text \<open>\<open>String.prototype.substring(0, n)\<close>.\<close>

definition substring0 :: "nat \<Rightarrow> string \<Rightarrow> string" where
  "substring0 n s = take n s"

text \<open>\<open>String.prototype.includes\<close>: some suffix of the string starts with the needle.\<close>

fun str_includes :: "string \<Rightarrow> string \<Rightarrow> bool" where
  "str_includes [] p = (p = [])"
| "str_includes (c # cs) p = (take (length p) (c # cs) = p \<or> str_includes cs p)"

text \<open>\<open>s.split(" ")[0]\<close>: the text before the first space.\<close>

definition split_first :: "string \<Rightarrow> string" where
  "split_first s = takeWhile (\<lambda>c. c \<noteq> CHR '' '') s"

section \<open>The regular expression of parseRelativeDate\<close>

text \<open>
  \<^verbatim>\<open>/^(a|an|\d+)\s+(second|minute|hour|day|week|month|year)s?\s+ago$/\<close>

  A backtracking matcher is modelled by the list of the ways a pattern can consume a
  prefix of its input, in the order the engine tries them: each way is the input that
  remains. Alternatives are tried left to right, and the greedy quantifiers try the
  longest repetition first.
\<close>

type_synonym matcher = "string \<Rightarrow> string list"

definition lit :: "string \<Rightarrow> matcher" where
  "lit p s = (if take (length p) s = p then [drop (length p) s] else [])"

fun many1 :: "(char \<Rightarrow> bool) \<Rightarrow> matcher" where
  "many1 P [] = []"
| "many1 P (c # cs) = (if P c then many1 P cs @ [cs] else [])"

definition alt :: "matcher \<Rightarrow> matcher \<Rightarrow> matcher" where
  "alt m1 m2 s = m1 s @ m2 s"

definition opt :: "matcher \<Rightarrow> matcher" where
  "opt m s = m s @ [s]"

text \<open>A capturing group returns the text it consumed with what remains.\<close>

definition capture :: "matcher \<Rightarrow> string \<Rightarrow> (string \<times> string) list" where
  "capture m s = map (\<lambda>r. (take (length s - length r) s, r)) (m s)"

definition amount_pat :: matcher where
  "amount_pat = alt (lit ''a'') (alt (lit ''an'') (many1 is_digit))"

definition unit_pat :: matcher where
  "unit_pat =
     alt (lit ''second'') (alt (lit ''minute'') (alt (lit ''hour'') (alt (lit ''day'')
       (alt (lit ''week'') (alt (lit ''month'') (lit ''year''))))))"

text \<open>All the matches of the whole pattern anchored at both ends, as pairs of the two
  captured groups; \<open>match\<close> returns the first one, or null.\<close>

definition matches :: "string \<Rightarrow> (string \<times> string) list" where
  "matches s =
     [(g1, g2).
        (g1, r1) \<leftarrow> capture amount_pat s,
        r2 \<leftarrow> many1 is_space r1,
        (g2, r3) \<leftarrow> capture unit_pat r2,
        r4 \<leftarrow> opt (lit ''s'') r3,
        r5 \<leftarrow> many1 is_space r4,
        r6 \<leftarrow> lit ''ago'' r5,
        r6 = []]"

definition regex_match :: "string \<Rightarrow> (string \<times> string) option" where
  "regex_match s = (case matches s of [] \<Rightarrow> None | m # _ \<Rightarrow> Some m)"

text \<open>\<open>parseInt(s, 10)\<close> on a string of decimal digits.\<close>

definition digit_val :: "char \<Rightarrow> int" where
  "digit_val c = int (code c) - 48"

definition parseInt :: "string \<Rightarrow> int" where
  "parseInt s = foldl (\<lambda>n c. 10 * n + digit_val c) 0 s"

section \<open>Dates\<close>

text \<open>
  A \<open>Date\<close> holds a time value, the milliseconds since the epoch, or NaN (an invalid
  date). The calendar functions are those of ECMAScript (Time Values and Time Range,
  Day Number, Year Number, Month Number, Date Number, MakeTime, MakeDay, MakeDate,
  TimeClip). Time values are integers in range, on which the arithmetic of doubles is
  exact.
\<close>

datatype jsdate = Date int | Invalid_Date

definition msPerDay :: int where "msPerDay = 86400000"
definition msPerHour :: int where "msPerHour = 3600000"
definition msPerMinute :: int where "msPerMinute = 60000"
definition msPerSecond :: int where "msPerSecond = 1000"

definition TimeClip :: "int \<Rightarrow> jsdate" where
  "TimeClip t = (if \<bar>t\<bar> \<le> 8640000000000000 then Date t else Invalid_Date)"

definition Day :: "int \<Rightarrow> int" where
  "Day t = t div msPerDay"

definition TimeWithinDay :: "int \<Rightarrow> int" where
  "TimeWithinDay t = t mod msPerDay"

definition DayFromYear :: "int \<Rightarrow> int" where
  "DayFromYear y =
     365 * (y - 1970) + (y - 1969) div 4 - (y - 1901) div 100 + (y - 1601) div 400"

definition DaysInYear :: "int \<Rightarrow> int" where
  "DaysInYear y =
     (if y mod 4 \<noteq> 0 then 365
      else if y mod 100 \<noteq> 0 then 366
      else if y mod 400 \<noteq> 0 then 365
      else 366)"

text \<open>The year of a day number: the largest \<open>y\<close> with \<open>DayFromYear y \<le> d\<close>, found
  from the mean length of a year and corrected by one.\<close>

definition YearFromDay :: "int \<Rightarrow> int" where
  "YearFromDay d =
     (let y0 = 1970 + (400 * d) div 146097 in
      if DayFromYear (y0 + 1) \<le> d then y0 + 1
      else if DayFromYear y0 \<le> d then y0
      else y0 - 1)"

definition YearFromTime :: "int \<Rightarrow> int" where
  "YearFromTime t = YearFromDay (Day t)"

definition InLeapYear :: "int \<Rightarrow> int" where
  "InLeapYear t = (if DaysInYear (YearFromTime t) = 366 then 1 else 0)"

definition DayWithinYear :: "int \<Rightarrow> int" where
  "DayWithinYear t = Day t - DayFromYear (YearFromTime t)"

text \<open>The day within the year on which month \<open>m\<close> (0 to 11) starts.\<close>

definition month_start :: "int \<Rightarrow> int \<Rightarrow> int" where
  "month_start m leap =
     (if m = 0 then 0
      else if m = 1 then 31
      else if m = 2 then 59 + leap
      else if m = 3 then 90 + leap
      else if m = 4 then 120 + leap
      else if m = 5 then 151 + leap
      else if m = 6 then 181 + leap
      else if m = 7 then 212 + leap
      else if m = 8 then 243 + leap
      else if m = 9 then 273 + leap
      else if m = 10 then 304 + leap
      else 334 + leap)"

definition MonthFromTime :: "int \<Rightarrow> int" where
  "MonthFromTime t =
     (let d = DayWithinYear t; l = InLeapYear t in
      if d < 31 then 0
      else if d < 59 + l then 1
      else if d < 90 + l then 2
      else if d < 120 + l then 3
      else if d < 151 + l then 4
      else if d < 181 + l then 5
      else if d < 212 + l then 6
      else if d < 243 + l then 7
      else if d < 273 + l then 8
      else if d < 304 + l then 9
      else if d < 334 + l then 10
      else 11)"

definition DateFromTime :: "int \<Rightarrow> int" where
  "DateFromTime t = DayWithinYear t - month_start (MonthFromTime t) (InLeapYear t) + 1"

definition HourFromTime :: "int \<Rightarrow> int" where
  "HourFromTime t = (t div msPerHour) mod 24"

definition MinFromTime :: "int \<Rightarrow> int" where
  "MinFromTime t = (t div msPerMinute) mod 60"

definition SecFromTime :: "int \<Rightarrow> int" where
  "SecFromTime t = (t div msPerSecond) mod 60"

definition msFromTime :: "int \<Rightarrow> int" where
  "msFromTime t = t mod msPerSecond"

definition MakeTime :: "int \<Rightarrow> int \<Rightarrow> int \<Rightarrow> int \<Rightarrow> int" where
  "MakeTime h m s milli = h * msPerHour + m * msPerMinute + s * msPerSecond + milli"

definition MakeDay :: "int \<Rightarrow> int \<Rightarrow> int \<Rightarrow> int" where
  "MakeDay y m dt =
     (let ym = y + m div 12; mn = m mod 12 in
      DayFromYear ym + month_start mn (if DaysInYear ym = 366 then 1 else 0) + dt - 1)"

definition MakeDate :: "int \<Rightarrow> int \<Rightarrow> int" where
  "MakeDate day time = day * msPerDay + time"

text \<open>
  The time zone of the host is the function LocalTZA of ECMAScript: \<open>tza t isUTC\<close> is
  the offset of local time from UTC in milliseconds, at the UTC time value \<open>t\<close> when
  \<open>isUTC\<close> is true and at the local time value \<open>t\<close> when it is false. The offset
  depends on \<open>t\<close> on a host that observes daylight saving time.
  \<open>LocalTime(t) = t + LocalTZA(t, true)\<close> and \<open>UTC(t) = t - LocalTZA(t, false)\<close>.
\<close>

type_synonym zone = "int \<Rightarrow> bool \<Rightarrow> int"

definition LocalTime :: "zone \<Rightarrow> int \<Rightarrow> int" where
  "LocalTime tza t = t + tza t True"

definition UTC :: "zone \<Rightarrow> int \<Rightarrow> int" where
  "UTC tza t = t - tza t False"

subsection \<open>The setters parseRelativeDate calls, on a valid time value\<close>

definition setSeconds :: "zone \<Rightarrow> int \<Rightarrow> int \<Rightarrow> jsdate" where
  "setSeconds tza t s =
     (let lt = LocalTime tza t in
      TimeClip (UTC tza (MakeDate (Day lt)
        (MakeTime (HourFromTime lt) (MinFromTime lt) s (msFromTime lt)))))"

definition setMinutes :: "zone \<Rightarrow> int \<Rightarrow> int \<Rightarrow> jsdate" where
  "setMinutes tza t m =
     (let lt = LocalTime tza t in
      TimeClip (UTC tza (MakeDate (Day lt)
        (MakeTime (HourFromTime lt) m (SecFromTime lt) (msFromTime lt)))))"

definition setHours :: "zone \<Rightarrow> int \<Rightarrow> int \<Rightarrow> jsdate" where
  "setHours tza t h =
     (let lt = LocalTime tza t in
      TimeClip (UTC tza (MakeDate (Day lt)
        (MakeTime h (MinFromTime lt) (SecFromTime lt) (msFromTime lt)))))"

definition setDate :: "zone \<Rightarrow> int \<Rightarrow> int \<Rightarrow> jsdate" where
  "setDate tza t dt =
     (let lt = LocalTime tza t in
      TimeClip (UTC tza (MakeDate (MakeDay (YearFromTime lt) (MonthFromTime lt) dt)
        (TimeWithinDay lt))))"

definition setMonth :: "zone \<Rightarrow> int \<Rightarrow> int \<Rightarrow> jsdate" where
  "setMonth tza t m =
     (let lt = LocalTime tza t in
      TimeClip (UTC tza (MakeDate (MakeDay (YearFromTime lt) m (DateFromTime lt))
        (TimeWithinDay lt))))"

definition setFullYear :: "zone \<Rightarrow> int \<Rightarrow> int \<Rightarrow> jsdate" where
  "setFullYear tza t y =
     (let lt = LocalTime tza t in
      TimeClip (UTC tza (MakeDate (MakeDay y (MonthFromTime lt) (DateFromTime lt))
        (TimeWithinDay lt))))"

definition getSeconds :: "zone \<Rightarrow> int \<Rightarrow> int" where
  "getSeconds tza t = SecFromTime (LocalTime tza t)"

definition getMinutes :: "zone \<Rightarrow> int \<Rightarrow> int" where
  "getMinutes tza t = MinFromTime (LocalTime tza t)"

definition getHours :: "zone \<Rightarrow> int \<Rightarrow> int" where
  "getHours tza t = HourFromTime (LocalTime tza t)"

definition getDate :: "zone \<Rightarrow> int \<Rightarrow> int" where
  "getDate tza t = DateFromTime (LocalTime tza t)"

definition getMonth :: "zone \<Rightarrow> int \<Rightarrow> int" where
  "getMonth tza t = MonthFromTime (LocalTime tza t)"

definition getFullYear :: "zone \<Rightarrow> int \<Rightarrow> int" where
  "getFullYear tza t = YearFromTime (LocalTime tza t)"

section \<open>parseRelativeDate and isDateBefore\<close>

text \<open>
  \<open>now\<close> is the reading of the clock that \<open>new Date()\<close> takes. The result is
  \<open>None\<close> for null.
\<close>

definition parseRelativeDate :: "zone \<Rightarrow> int \<Rightarrow> string \<Rightarrow> jsdate option" where
  "parseRelativeDate tza now relativeDateString =
     (let trimmed = toLowerCase (trim relativeDateString) in
      case regex_match trimmed of
        None \<Rightarrow> None
      | Some (amountStr, unit) \<Rightarrow>
          (let amount = (if amountStr = ''a'' \<or> amountStr = ''an'' then 1
                         else parseInt amountStr)
           in if unit = ''second'' then Some (setSeconds tza now (getSeconds tza now - amount))
              else if unit = ''minute'' then Some (setMinutes tza now (getMinutes tza now - amount))
              else if unit = ''hour'' then Some (setHours tza now (getHours tza now - amount))
              else if unit = ''day'' then Some (setDate tza now (getDate tza now - amount))
              else if unit = ''week'' then Some (setDate tza now (getDate tza now - amount * 7))
              else if unit = ''month'' then Some (setMonth tza now (getMonth tza now - amount))
              else if unit = ''year'' then Some (setFullYear tza now (getFullYear tza now - amount))
              else None))"

text \<open>
  isDateBefore on the arguments the scraper passes: each is a \<open>Date\<close> or null. A date
  is valid when its time value is not NaN; the comparison \<open>d1 >= d2\<close> is on the time
  values.
\<close>

definition isDateBefore :: "jsdate option \<Rightarrow> jsdate option \<Rightarrow> bool option" where
  "isDateBefore newDate lastScrapedDate =
     (case (newDate, lastScrapedDate) of
        (Some (Date d1), Some (Date d2)) \<Rightarrow> Some (d1 \<ge> d2)
      | _ \<Rightarrow> None)"

section \<open>Reviews and the page\<close>

text \<open>\<open>ReviewType\<close>. The field \<open>id\<close> is named \<open>reviewId\<close>, as the variable it is
  built from.\<close>

record review =
  reviewId :: string
  reviewName :: string
  reviewPostedAt :: string
  starRating :: string
  responseFromOwner :: bool
  reviewText :: string
  isHighRating :: bool
  starLabel :: string
  shareUrl :: string

text \<open>
  What the function evaluated in the page reads from one \<open>div.jftiEf\<close> element. An
  element is \<open>Unreadable\<close> when it has fewer than two buttons or when one of the clicks
  and lookups of the share dialog throws (the inner \<open>catch\<close> skips it). Otherwise: the
  first line of the second button, the text of \<open>div.MyEned\<close> if there is one, the
  \<open>aria-label\<close> of the first span whose label includes "star" if there is one, whether
  a div holds "Response from the owner", the text of the first span that includes "AGO"
  if there is one, and the value of the share dialog's input.
\<close>

datatype element =
    Unreadable
  | Readable string "string option" "string option" bool "string option" string

fun extract_review :: "element \<Rightarrow> review option" where
  "extract_review Unreadable = None"
| "extract_review (Readable name body label owner posted url) =
     (if name = [] then None
      else case label of
        None \<Rightarrow> None
      | Some lbl \<Rightarrow>
          (let txt = (case body of None \<Rightarrow> ''No review text found''
                      | Some t \<Rightarrow> if t = [] then ''No review text found'' else t)
           in Some \<lparr>reviewId = name @ ''_'' @ substring0 50 txt,
                     reviewName = name,
                     reviewPostedAt = (case posted of None \<Rightarrow> ''Unknown date'' | Some p \<Rightarrow> p),
                     starRating = split_first lbl,
                     responseFromOwner = owner,
                     reviewText = txt,
                     isHighRating = (str_includes lbl ''4'' \<or> str_includes lbl ''5''),
                     starLabel = lbl,
                     shareUrl = url\<rparr>))"

text \<open>The object the evaluated function returns: \<open>reviews\<close>, \<open>totalElements\<close>,
  \<open>newElementsProcessed\<close>, for the elements now in the page and the count passed in.\<close>

definition newElements :: "element list \<Rightarrow> nat \<Rightarrow> element list" where
  "newElements allElements processedCount = drop processedCount allElements"

definition reviews_of :: "element list \<Rightarrow> review list" where
  "reviews_of els = List.map_filter extract_review els"

definition in_page :: "element list \<Rightarrow> nat \<Rightarrow> review list \<times> nat \<times> nat" where
  "in_page allElements processedCount =
     (reviews_of (newElements allElements processedCount),
      length allElements,
      length (newElements allElements processedCount))"

text \<open>What one call of \<open>page.evaluate\<close> with that function does: it rejects (the scroll
  container is missing, the page is gone), it resolves to no value, or it runs on the
  elements the page holds after the scroll.\<close>

datatype page_outcome = Throws | NoData | Rendered "element list"

section \<open>The Map of scraped reviews\<close>

text \<open>A JavaScript \<open>Map\<close> keeps its entries in insertion order; \<open>set\<close> on a key it
  holds replaces the value in place.\<close>

type_synonym review_map = "(string \<times> review) list"

definition map_has :: "review_map \<Rightarrow> string \<Rightarrow> bool" where
  "map_has m k = (k \<in> set (map fst m))"

fun map_set :: "review_map \<Rightarrow> string \<Rightarrow> review \<Rightarrow> review_map" where
  "map_set [] k v = [(k, v)]"
| "map_set ((k', v') # m) k v = (if k' = k then (k, v) # m else (k', v') # map_set m k v)"

definition map_values :: "review_map \<Rightarrow> review list" where
  "map_values m = map snd m"

definition map_size :: "review_map \<Rightarrow> nat" where
  "map_size m = length m"

section \<open>Effects\<close>

text \<open>The calls on the browser that can throw, and what is thrown.\<close>

datatype step =
    BrowserInstance | Goto_url | AddLanguage | Goto_en | ReviewsTab | FilterBy string
  | ScrollBy | WaitForSelector | PageClose | BrowserClose

datatype thrown = DateRequired | BrowserFailed | ReviewTabNotFound | Rejected step

text \<open>The observable trace: calls on the browser, calls of \<open>page.evaluate\<close> by the
  harvest loop (with the count passed in), and the lines written to the console.\<close>

datatype event =
    Call step
  | Evaluate nat
  | Log_no_review_data
  | Log_reviews "review list"
  | Log_after_last_scraped_date string
  | Log_counts nat nat nat
  | Log_stopping_no_new_elements
  | Log_stopping_limit
  | Error_scroll_iteration
  | Log_completed nat
  | Log_final_reviews "review list"
  | Error_creating_browser
  | Error_reviews_not_found
  | Error_scraping thrown
  | Error_scraping_new thrown

section \<open>ScraperReviews\<close>

record harvest =
  isScrolling :: bool
  scrapedReviews :: review_map
  processedElementsCount :: nat
  noNewElementsCount :: nat
  newReviewsAdded :: nat
  reads :: nat
  trace :: "event list"

definition MAX_NO_NEW_ELEMENTS :: nat where
  "MAX_NO_NEW_ELEMENTS = 3"

definition init :: harvest where
  "init = \<lparr>isScrolling = True, scrapedReviews = [], processedElementsCount = 0,
            noNewElementsCount = 0, newReviewsAdded = 0, reads = 0, trace = []\<rparr>"

definition emit :: "event \<Rightarrow> harvest \<Rightarrow> harvest" where
  "emit e st = st\<lparr>trace := trace st @ [e]\<rparr>"

text \<open>\<^verbatim>\<open>if (!scrapedReviews.has(review.id)) { scrapedReviews.set(review.id, review); newReviewsAdded++; }\<close>\<close>

definition add_if_new :: "review \<Rightarrow> harvest \<Rightarrow> harvest" where
  "add_if_new r st =
     (if \<not> map_has (scrapedReviews st) (reviewId r)
      then st\<lparr>scrapedReviews := map_set (scrapedReviews st) (reviewId r) r,
               newReviewsAdded := newReviewsAdded st + 1\<rparr>
      else st)"

text \<open>
  The \<open>for (const review of reviews)\<close> loop. \<open>lastScrapedDate\<close> is \<open>None\<close> for
  undefined. A string is truthy when it is not empty, so an empty cutoff takes neither
  branch. Each call of parseRelativeDate reads the clock: \<open>clock k\<close> is the \<open>k\<close>-th
  reading since the harvest started. \<open>break\<close> ends the recursion; \<open>continue\<close> goes
  on with the rest.
\<close>

fun process_reviews ::
  "zone \<Rightarrow> (nat \<Rightarrow> int) \<Rightarrow> string option \<Rightarrow> review list \<Rightarrow> harvest \<Rightarrow> harvest" where
  "process_reviews tza clock lastScrapedDate [] st = st"
| "process_reviews tza clock lastScrapedDate (r # rs) st =
     (case lastScrapedDate of
        None \<Rightarrow>
          (if isHighRating r then st\<lparr>isScrolling := False\<rparr>
           else process_reviews tza clock lastScrapedDate rs (add_if_new r st))
      | Some d \<Rightarrow>
          (if d = [] then process_reviews tza clock lastScrapedDate rs st
           else
             (let isStopedAt =
                    isDateBefore (parseRelativeDate tza (clock (reads st)) (reviewPostedAt r))
                                 (parseRelativeDate tza (clock (reads st + 1)) d);
                  st1 = st\<lparr>reads := reads st + 2\<rparr>
              in if isStopedAt = Some True then
                   (if isHighRating r then process_reviews tza clock lastScrapedDate rs st1
                    else process_reviews tza clock lastScrapedDate rs (add_if_new r st1))
                 else process_reviews tza clock lastScrapedDate rs
                        ((emit (Log_after_last_scraped_date (reviewId r)) st1)\<lparr>isScrolling := False\<rparr>))))"

text \<open>The check on \<open>newElementsProcessed\<close> after the reviews of an iteration.\<close>

definition no_new_check :: "nat \<Rightarrow> harvest \<Rightarrow> harvest" where
  "no_new_check newElementsProcessed st =
     (if newElementsProcessed = 0 then
        (let st1 = st\<lparr>noNewElementsCount := noNewElementsCount st + 1\<rparr>
         in if noNewElementsCount st1 \<ge> MAX_NO_NEW_ELEMENTS
            then (emit Log_stopping_no_new_elements st1)\<lparr>isScrolling := False\<rparr>
            else st1)
      else st\<lparr>noNewElementsCount := 0\<rparr>)"

text \<open>One pass through the body of \<open>while (isScrolling)\<close>, the inner \<open>try\<close> with its
  \<open>catch\<close>. The result says whether the pass left the loop by \<open>break\<close>.\<close>

datatype ctl = Next | Break

definition iteration ::
  "zone \<Rightarrow> (nat \<Rightarrow> int) \<Rightarrow> string option \<Rightarrow> page_outcome \<Rightarrow> harvest \<Rightarrow> ctl \<times> harvest" where
  "iteration tza clock lastScrapedDate outcome st =
     (let st0 = emit (Evaluate (processedElementsCount st)) st in
      case outcome of
        Throws \<Rightarrow> (Break, (emit Error_scroll_iteration st0)\<lparr>isScrolling := False\<rparr>)
      | NoData \<Rightarrow> (Break, emit Log_no_review_data st0)
      | Rendered allElements \<Rightarrow>
          (case in_page allElements (processedElementsCount st) of
             (reviews, totalElements, newElementsProcessed) \<Rightarrow>
               (let st1 = (emit (Log_reviews reviews) st0)
                            \<lparr>processedElementsCount := totalElements, newReviewsAdded := 0\<rparr>;
                    st2 = process_reviews tza clock lastScrapedDate reviews st1;
                    st3 = emit (Log_counts newElementsProcessed (newReviewsAdded st2)
                                  (map_size (scrapedReviews st2))) st2
                in (Next, no_new_check newElementsProcessed st3))))"

text \<open>
  The \<open>while\<close> loop over the successive outcomes of \<open>page.evaluate\<close>. The loop may
  run for ever; the script of outcomes is its fuel, and \<open>None\<close> says that the loop was
  still scrolling when the script ended.
\<close>

fun scroll_loop ::
  "zone \<Rightarrow> (nat \<Rightarrow> int) \<Rightarrow> string option \<Rightarrow> page_outcome list \<Rightarrow> harvest \<Rightarrow> harvest option" where
  "scroll_loop tza clock lastScrapedDate script st =
     (if \<not> isScrolling st then Some st
      else case script of
        [] \<Rightarrow> None
      | outcome # rest \<Rightarrow>
          (case iteration tza clock lastScrapedDate outcome st of
             (Break, st') \<Rightarrow> Some st'
           | (Next, st') \<Rightarrow> scroll_loop tza clock lastScrapedDate rest st'))"

text \<open>
  ScraperReviews returns the values of the map in insertion order, with the trace. The
  result of \<open>finalReviews.filter\<close> is dropped by the source, and nothing in the outer
  \<open>try\<close> throws outside the inner one, so the outer \<open>catch\<close> is never entered.
\<close>

definition ScraperReviews ::
  "zone \<Rightarrow> (nat \<Rightarrow> int) \<Rightarrow> page_outcome list \<Rightarrow> string option \<Rightarrow> (review list \<times> event list) option" where
  "ScraperReviews tza clock script lastScrapedDate =
     (case scroll_loop tza clock lastScrapedDate script init of
        None \<Rightarrow> None
      | Some st \<Rightarrow>
          (let finalReviews = map_values (scrapedReviews st)
           in Some (finalReviews, trace st @ [Log_completed (length finalReviews)])))"

section \<open>ScrapeReviews, the loop without a cutoff in index.ts\<close>

text \<open>The same state and the same function in the page; the reviews loop, the check on
  new elements (which leaves by \<open>break\<close>) and the safety limit differ.\<close>

fun ScrapeReviews_reviews :: "review list \<Rightarrow> harvest \<Rightarrow> harvest" where
  "ScrapeReviews_reviews [] st = st"
| "ScrapeReviews_reviews (r # rs) st =
     (if \<not> map_has (scrapedReviews st) (reviewId r) then
        (let st1 = st\<lparr>scrapedReviews := map_set (scrapedReviews st) (reviewId r) r,
                        newReviewsAdded := newReviewsAdded st + 1\<rparr>
         in if isHighRating r then st1\<lparr>isScrolling := False\<rparr>
            else ScrapeReviews_reviews rs st1)
      else ScrapeReviews_reviews rs st)"

definition ScrapeReviews_iteration :: "page_outcome \<Rightarrow> harvest \<Rightarrow> ctl \<times> harvest" where
  "ScrapeReviews_iteration outcome st =
     (let st0 = emit (Evaluate (processedElementsCount st)) st in
      case outcome of
        Throws \<Rightarrow> (Break, (emit Error_scroll_iteration st0)\<lparr>isScrolling := False\<rparr>)
      | NoData \<Rightarrow> (Break, emit Log_no_review_data st0)
      | Rendered allElements \<Rightarrow>
          (case in_page allElements (processedElementsCount st) of
             (reviews, totalElements, newElementsProcessed) \<Rightarrow>
               (let st1 = (emit (Log_reviews reviews) st0)
                            \<lparr>processedElementsCount := totalElements, newReviewsAdded := 0\<rparr>;
                    st2 = ScrapeReviews_reviews reviews st1;
                    st3 = emit (Log_counts newElementsProcessed (newReviewsAdded st2)
                                  (map_size (scrapedReviews st2))) st2;
                    st4 = (if newElementsProcessed = 0
                           then st3\<lparr>noNewElementsCount := noNewElementsCount st3 + 1\<rparr>
                           else st3\<lparr>noNewElementsCount := 0\<rparr>)
                in if newElementsProcessed = 0 \<and> noNewElementsCount st4 \<ge> MAX_NO_NEW_ELEMENTS
                   then (Break, (emit Log_stopping_no_new_elements st4)\<lparr>isScrolling := False\<rparr>)
                   else if map_size (scrapedReviews st4) > 1000
                   then (Break, (emit Log_stopping_limit st4)\<lparr>isScrolling := False\<rparr>)
                   else (Next, st4))))"

fun ScrapeReviews_loop :: "page_outcome list \<Rightarrow> harvest \<Rightarrow> harvest option" where
  "ScrapeReviews_loop script st =
     (if \<not> isScrolling st then Some st
      else case script of
        [] \<Rightarrow> None
      | outcome # rest \<Rightarrow>
          (case ScrapeReviews_iteration outcome st of
             (Break, st') \<Rightarrow> Some st'
           | (Next, st') \<Rightarrow> ScrapeReviews_loop rest st'))"

definition ScrapeReviews :: "page_outcome list \<Rightarrow> (review list \<times> event list) option" where
  "ScrapeReviews script =
     (case ScrapeReviews_loop script init of
        None \<Rightarrow> None
      | Some st \<Rightarrow>
          (let finalReviews = map_values (scrapedReviews st)
           in Some (finalReviews, trace st @ [Log_completed (length finalReviews)])))"

section \<open>The entry points of index.ts\<close>

text \<open>
  The world outside: which calls on the browser throw, what the page does at each
  \<open>page.evaluate\<close> of the harvest, the clock and the time zone of the host.
\<close>

record world =
  fails :: "step \<Rightarrow> bool"
  page :: "page_outcome list"
  now_at :: "nat \<Rightarrow> int"
  zone :: zone

definition thrown_by :: "step \<Rightarrow> thrown" where
  "thrown_by s =
     (if s = BrowserInstance then BrowserFailed
      else if s = ReviewsTab then ReviewTabNotFound
      else Rejected s)"

text \<open>Awaited calls in sequence, up to the first that throws. BrowserInstance writes
  to the console before it throws its own error.\<close>

fun run_steps :: "(step \<Rightarrow> bool) \<Rightarrow> step list \<Rightarrow> event list \<Rightarrow> thrown option \<times> event list" where
  "run_steps f [] tr = (None, tr)"
| "run_steps f (s # ss) tr =
     (if f s then
        (Some (thrown_by s),
         tr @ [Call s] @ (if s = BrowserInstance then [Error_creating_browser] else []))
      else run_steps f ss (tr @ [Call s]))"

text \<open>\<^verbatim>\<open>Page.waitForSelector("div.jftiEf", ...).catch(() => console.error(...))\<close>\<close>

definition wait_for_reviews :: "(step \<Rightarrow> bool) \<Rightarrow> event list" where
  "wait_for_reviews f = Call WaitForSelector # (if f WaitForSelector then [Error_reviews_not_found] else [])"

text \<open>What an \<open>async\<close> function resolves to.\<close>

datatype 'a resolved = Undefined | Value 'a

text \<open>The values a filter callback can return here, and their truthiness.\<close>

datatype jsval = JUndefined | JBool bool

fun truthy :: "jsval \<Rightarrow> bool" where
  "truthy JUndefined = False"
| "truthy (JBool b) = b"

definition array_filter :: "('a \<Rightarrow> jsval) \<Rightarrow> 'a list \<Rightarrow> 'a list" where
  "array_filter cb xs = filter (\<lambda>x. truthy (cb x)) xs"

text \<open>\<^verbatim>\<open>(item) => { item.isHighRating === false; }\<close>: the body is a block; the
  comparison is an expression statement, and the function returns undefined.\<close>

definition final_filter_callback :: "review \<Rightarrow> jsval" where
  "final_filter_callback item = (let statement = JBool (isHighRating item = False) in JUndefined)"

definition scrapeGoogleMapsReviews :: "world \<Rightarrow> (review list resolved \<times> event list) option" where
  "scrapeGoogleMapsReviews w =
     (case run_steps (fails w)
             [BrowserInstance, Goto_url, AddLanguage, Goto_en, ReviewsTab,
              FilterBy ''Lowest rating'', ScrollBy] [] of
        (Some e, tr) \<Rightarrow> Some (Undefined, tr @ [Error_scraping e])
      | (None, tr) \<Rightarrow>
          (case ScraperReviews (zone w) (now_at w) (page w) None of
             None \<Rightarrow> None
           | Some (finalReviews, harvested) \<Rightarrow>
               (case run_steps (fails w) [PageClose, BrowserClose]
                       (tr @ wait_for_reviews (fails w) @ harvested @ [Log_final_reviews finalReviews]) of
                  (Some e, tr') \<Rightarrow> Some (Undefined, tr' @ [Error_scraping e])
                | (None, tr') \<Rightarrow> Some (Value (array_filter final_filter_callback finalReviews), tr'))))"


chapter \<open>Notions of the specification\<close>

section \<open>The grammar of relative times, in the words of the specification\<close>

















section \<open>Notions used to state the properties of the loop\<close>

text \<open>The state after the loop has consumed at most these outcomes: a total function
  that stops where the loop stops.\<close>

fun iterations ::
  "zone \<Rightarrow> (nat \<Rightarrow> int) \<Rightarrow> string option \<Rightarrow> page_outcome list \<Rightarrow> harvest \<Rightarrow> harvest" where
  "iterations tza clock lastScrapedDate [] st = st"
| "iterations tza clock lastScrapedDate (outcome # rest) st =
     (if \<not> isScrolling st then st
      else case iteration tza clock lastScrapedDate outcome st of
        (Break, st') \<Rightarrow> st'
      | (Next, st') \<Rightarrow> iterations tza clock lastScrapedDate rest st')"

text \<open>The state after the loop has gone through all of these outcomes and is still
  scrolling; \<open>None\<close> if it left the loop before.\<close>

fun advance ::
  "zone \<Rightarrow> (nat \<Rightarrow> int) \<Rightarrow> string option \<Rightarrow> page_outcome list \<Rightarrow> harvest \<Rightarrow> harvest option" where
  "advance tza clock lastScrapedDate [] st = (if isScrolling st then Some st else None)"
| "advance tza clock lastScrapedDate (outcome # rest) st =
     (if \<not> isScrolling st then None
      else case iteration tza clock lastScrapedDate outcome st of
        (Break, st') \<Rightarrow> None
      | (Next, st') \<Rightarrow> advance tza clock lastScrapedDate rest st')"

text \<open>The records extracted over successive renderings, in extraction order: each
  rendering contributes the reviews of the elements past the previous total.\<close>

fun extracted :: "nat \<Rightarrow> page_outcome list \<Rightarrow> review list" where
  "extracted n [] = []"
| "extracted n (Rendered els # rest) = reviews_of (newElements els n) @ extracted (length els) rest"
| "extracted n (Throws # rest) = []"
| "extracted n (NoData # rest) = []"

text \<open>The unique items of a stream by identity, each at its first occurrence; \<open>seen\<close>
  holds the identities met before.\<close>

fun first_seen :: "string list \<Rightarrow> review list \<Rightarrow> review list" where
  "first_seen seen [] = []"
| "first_seen seen (r # rs) =
     (if reviewId r \<in> set seen then first_seen seen rs
      else r # first_seen (reviewId r # seen) rs)"

text \<open>A map whose keys are distinct and are the identities of the values they hold.\<close>

definition keyed :: "review_map \<Rightarrow> bool" where
  "keyed m = (distinct (map fst m) \<and> list_all (\<lambda>(k, v). reviewId v = k) m)"

definition entries :: "review list \<Rightarrow> review_map" where
  "entries rs = map (\<lambda>r. (reviewId r, r)) rs"

section \<open>Sample inputs\<close>

text \<open>A readable review element with a body text, no owner response and a share link.\<close>

definition sample_element :: "string \<Rightarrow> string \<Rightarrow> string \<Rightarrow> element" where
  "sample_element name label posted =
     Readable name (Some ''Slow service'') (Some label) False (Some posted) ''https://maps.app/x''"

definition sample_review :: "string \<Rightarrow> string \<Rightarrow> string \<Rightarrow> review" where
  "sample_review name label posted =
     \<lparr>reviewId = name @ ''_Slow service'', reviewName = name, reviewPostedAt = posted,
       starRating = split_first label, responseFromOwner = False,
       reviewText = ''Slow service'',
       isHighRating = (str_includes label ''4'' \<or> str_includes label ''5''),
       starLabel = label, shareUrl = ''https://maps.app/x''\<rparr>"

text \<open>A clock that advances by a millisecond at each reading.\<close>

definition sample_clock :: "nat \<Rightarrow> int" where
  "sample_clock k = 1000000000000 + int k"

text \<open>A host that keeps UTC.\<close>

definition sample_zone :: zone where
  "sample_zone = (\<lambda>t isUTC. 0)"


text \<open>A world in which no call throws and the page shows one review, then a second
  one: posted a day ago with one star, posted three days ago with five stars.\<close>

definition sample_world :: world where
  "sample_world =
     \<lparr>fails = (\<lambda>s. False),
       page = [Rendered [sample_element ''Ann'' ''1 star'' ''1 day ago''],
               Rendered [sample_element ''Ann'' ''1 star'' ''1 day ago'',
                         sample_element ''Bob'' ''5 stars'' ''3 days ago'']],
       now_at = sample_clock, zone = sample_zone\<rparr>"

text \<open>An element without a date span: its review is posted at "Unknown date".\<close>

definition undated_element :: "string \<Rightarrow> string \<Rightarrow> element" where
  "undated_element name label =
     Readable name (Some ''Slow service'') (Some label) False None ''https://maps.app/x''"

text \<open>\<open>n\<close> readable elements with one star and pairwise different names.\<close>

definition crowd :: "nat \<Rightarrow> element list" where
  "crowd n = map (\<lambda>i. sample_element (replicate (Suc i) CHR ''x'') ''1 star'' ''1 day ago'') [0..<n]"

definition crowd_reviews :: "nat \<Rightarrow> review list" where
  "crowd_reviews n = map (\<lambda>i. sample_review (replicate (Suc i) CHR ''x'') ''1 star'' ''1 day ago'') [0..<n]"

chapter \<open>Properties\<close>

section \<open>The regular expression and the grammar\<close>




































section \<open>The calendar\<close>











subsection \<open>The fields of a time value\<close>




subsection \<open>The lengths of years and months\<close>




























subsection \<open>Setting a field to its value less an amount\<close>








section \<open>parseRelativeDate\<close>













lemma TimeClip_range:
  "(\<bar>t\<bar> \<le> 8640000000000000 \<longrightarrow> TimeClip t = Date t) \<and> (\<not> \<bar>t\<bar> \<le> 8640000000000000 \<longrightarrow> TimeClip t = Invalid_Date)"
  by (simp add: TimeClip_def)















section \<open>isDateBefore\<close>

lemma isDateBefore_table:
  "isDateBefore (Some (Date (now - msPerDay))) (Some (Date (now - 2 * msPerDay))) = Some True"
  "isDateBefore (Some (Date (now - 3 * msPerDay))) (Some (Date (now - 2 * msPerDay))) = Some False"
  "isDateBefore None x = None"
  "isDateBefore x None = None"
  "isDateBefore (Some Invalid_Date) x = None"
  by (simp_all add: isDateBefore_def msPerDay_def split: option.splits jsdate.splits)

section \<open>The harvest loop\<close>

subsection \<open>The map\<close>

lemma map_set_new: "\<not> map_has m k \<Longrightarrow> map_set m k v = m @ [(k, v)]"
  by (induction m) (auto simp: map_has_def)

lemma emit_fields [simp]:
  "isScrolling (emit e st) = isScrolling st"
  "scrapedReviews (emit e st) = scrapedReviews st"
  "processedElementsCount (emit e st) = processedElementsCount st"
  "noNewElementsCount (emit e st) = noNewElementsCount st"
  "newReviewsAdded (emit e st) = newReviewsAdded st"
  "reads (emit e st) = reads st"
  "trace (emit e st) = trace st @ [e]"
  by (simp_all add: emit_def)

lemma add_if_new_fields [simp]:
  "isScrolling (add_if_new r st) = isScrolling st"
  "processedElementsCount (add_if_new r st) = processedElementsCount st"
  "noNewElementsCount (add_if_new r st) = noNewElementsCount st"
  "reads (add_if_new r st) = reads st"
  "trace (add_if_new r st) = trace st"
  by (simp_all add: add_if_new_def)

lemma add_if_new_map:
  "scrapedReviews (add_if_new r st) =
     (if map_has (scrapedReviews st) (reviewId r) then scrapedReviews st
      else scrapedReviews st @ [(reviewId r, r)])"
  by (simp add: add_if_new_def map_set_new)

lemma keyed_add: "keyed (scrapedReviews st) \<Longrightarrow> keyed (scrapedReviews (add_if_new r st))"
  by (auto simp: add_if_new_map keyed_def map_has_def)

lemma keyed_process:
  "keyed (scrapedReviews st) \<Longrightarrow> keyed (scrapedReviews (process_reviews tza clock lsd rs st))"
  by (induction tza clock lsd rs st rule: process_reviews.induct)
     (auto simp: keyed_add Let_def split: option.splits)

lemma extends_add: "\<exists>added. scrapedReviews (add_if_new r st) = scrapedReviews st @ added"
  by (simp add: add_if_new_map)

lemma extends_process:
  "\<exists>added. scrapedReviews (process_reviews tza clock lsd rs st) = scrapedReviews st @ added"
proof (induction tza clock lsd rs st rule: process_reviews.induct)
  case (1 tza clock lastScrapedDate st)
  then show ?case by simp
next
  case (2 tza clock lastScrapedDate r rs st)
  show ?case
  proof (cases lastScrapedDate)
    case None
    show ?thesis
    proof (cases "isHighRating r")
      case True
      then show ?thesis using None by simp
    next
      case False
      from 2(1) [OF None False] obtain added where
        "scrapedReviews (process_reviews tza clock lastScrapedDate rs (add_if_new r st))
           = scrapedReviews (add_if_new r st) @ added" by blast
      then show ?thesis using None False extends_add [of r st] by auto
    qed
  next
    case (Some d)
    show ?thesis
    proof (cases "d = []")
      case True
      then show ?thesis using Some 2(2) [OF Some True] by simp
    next
      case False
      define cmp where "cmp = isDateBefore (parseRelativeDate tza (clock (reads st)) (reviewPostedAt r))
                                 (parseRelativeDate tza (clock (reads st + 1)) d)"
      define st1 where "st1 = st\<lparr>reads := reads st + 2\<rparr>"
      have s1: "scrapedReviews st1 = scrapedReviews st" by (simp add: st1_def)
      show ?thesis
      proof (cases "cmp = Some True")
        case t: True
        show ?thesis
        proof (cases "isHighRating r")
          case True
          from 2(3) [OF Some False cmp_def st1_def t True]
          show ?thesis using Some False t True s1 by (simp add: Let_def cmp_def st1_def)
        next
          case h: False
          from 2(4) [OF Some False cmp_def st1_def t h] obtain added where
            "scrapedReviews (process_reviews tza clock lastScrapedDate rs (add_if_new r st1))
               = scrapedReviews (add_if_new r st1) @ added" by blast
          then show ?thesis using Some False t h s1 extends_add [of r st1]
            by (auto simp: Let_def cmp_def st1_def)
        qed
      next
        case f: False
        from 2(5) [OF Some False cmp_def st1_def f]
        show ?thesis using Some False f s1 by (simp add: Let_def cmp_def st1_def)
      qed
    qed
  qed
qed

lemma no_new_check_fields [simp]:
  "scrapedReviews (no_new_check n st) = scrapedReviews st"
  "processedElementsCount (no_new_check n st) = processedElementsCount st"
  by (simp_all add: no_new_check_def Let_def)

lemma no_new_check_stopped: "\<not> isScrolling st \<Longrightarrow> \<not> isScrolling (no_new_check n st)"
  by (simp add: no_new_check_def Let_def)

lemma iteration_map:
  "scrapedReviews (snd (iteration tza clock lsd outcome st)) =
     (case outcome of
        Rendered els \<Rightarrow>
          scrapedReviews (process_reviews tza clock lsd
            (reviews_of (newElements els (processedElementsCount st)))
            ((emit (Log_reviews (reviews_of (newElements els (processedElementsCount st))))
                (emit (Evaluate (processedElementsCount st)) st))
               \<lparr>processedElementsCount := length els, newReviewsAdded := 0\<rparr>))
      | _ \<Rightarrow> scrapedReviews st)"
  by (simp add: iteration_def in_page_def Let_def split: page_outcome.splits)

lemma keyed_iteration:
  "keyed (scrapedReviews st) \<Longrightarrow> keyed (scrapedReviews (snd (iteration tza clock lsd outcome st)))"
  unfolding iteration_map by (cases outcome) (simp_all add: keyed_process)

lemma extends_iteration:
  "\<exists>added. scrapedReviews (snd (iteration tza clock lsd outcome st)) = scrapedReviews st @ added"
proof (cases outcome)
  case (Rendered els)
  show ?thesis
    unfolding iteration_map Rendered
    using extends_process [of tza clock lsd "reviews_of (newElements els (processedElementsCount st))"
        "(emit (Log_reviews (reviews_of (newElements els (processedElementsCount st))))
                (emit (Evaluate (processedElementsCount st)) st))
               \<lparr>processedElementsCount := length els, newReviewsAdded := 0\<rparr>"]
    by simp
qed (simp_all add: iteration_map)

lemma keyed_iterations:
  "keyed (scrapedReviews st) \<Longrightarrow> keyed (scrapedReviews (iterations tza clock lsd script st))"
proof (induction script arbitrary: st)
  case Nil
  then show ?case by simp
next
  case (Cons outcome rest)
  obtain c st' where it: "iteration tza clock lsd outcome st = (c, st')" by (cases "iteration tza clock lsd outcome st")
  have k: "keyed (scrapedReviews st')" using keyed_iteration [OF Cons.prems, of tza clock lsd outcome] it by simp
  show ?case using Cons.prems Cons.IH [OF k] k it by (cases c) simp_all
qed

lemma extends_iterations:
  "\<exists>added. scrapedReviews (iterations tza clock lsd script st) = scrapedReviews st @ added"
proof (induction script arbitrary: st)
  case Nil
  then show ?case by simp
next
  case (Cons outcome rest)
  obtain c st' where it: "iteration tza clock lsd outcome st = (c, st')" by (cases "iteration tza clock lsd outcome st")
  obtain a1 where a1: "scrapedReviews st' = scrapedReviews st @ a1"
    using extends_iteration [of tza clock lsd outcome st] it by auto
  obtain a2 where a2: "scrapedReviews (iterations tza clock lsd rest st') = scrapedReviews st' @ a2"
    using Cons.IH [of st'] by blast
  show ?case using it a1 a2 by (cases c) auto
qed

declare scroll_loop.simps [simp del]

lemma scroll_loop_stopped: "\<not> isScrolling st \<Longrightarrow> scroll_loop tza clock lsd script st = Some st"
  by (simp add: scroll_loop.simps)

lemma scroll_loop_Nil: "isScrolling st \<Longrightarrow> scroll_loop tza clock lsd [] st = None"
  by (simp add: scroll_loop.simps)

lemma scroll_loop_Cons:
  "isScrolling st \<Longrightarrow>
   scroll_loop tza clock lsd (outcome # rest) st =
     (case iteration tza clock lsd outcome st of
        (Break, st') \<Rightarrow> Some st'
      | (Next, st') \<Rightarrow> scroll_loop tza clock lsd rest st')"
  by (simp add: scroll_loop.simps)

lemma scroll_loop_iterations:
  "scroll_loop tza clock lsd script st = Some fin \<Longrightarrow> fin = iterations tza clock lsd script st"
proof (induction script arbitrary: st)
  case Nil
  then show ?case
    by (cases "isScrolling st") (simp_all add: scroll_loop_stopped scroll_loop_Nil)
next
  case (Cons outcome rest)
  obtain c st' where it: "iteration tza clock lsd outcome st = (c, st')" by (cases "iteration tza clock lsd outcome st")
  show ?case
  proof (cases "isScrolling st")
    case False
    then show ?thesis using Cons.prems by (simp add: scroll_loop_stopped)
  next
    case True
    show ?thesis
    proof (cases c)
      case Next
      then show ?thesis using Cons.prems Cons.IH [of st'] it True by (simp add: scroll_loop_Cons)
    next
      case Break
      then show ?thesis using Cons.prems it True by (simp add: scroll_loop_Cons)
    qed
  qed
qed

lemma keyed_init: "keyed (scrapedReviews init)"
  by (simp add: init_def keyed_def)

lemma keyed_values: "keyed m \<Longrightarrow> distinct (map reviewId (map_values m))"
proof -
  assume k: "keyed m"
  then have "map reviewId (map_values m) = map fst m"
    by (auto simp: keyed_def map_values_def list_all_iff)
  with k show ?thesis by (simp add: keyed_def)
qed

lemma sample_harvest_A:
  "ScraperReviews sample_zone sample_clock (page sample_world) None \<noteq> None \<and>
   fst (the (ScraperReviews sample_zone sample_clock (page sample_world) None))
     = [sample_review ''Ann'' ''1 star'' ''1 day ago'']"
  by code_simp

lemma sample_harvest_B:
  "ScraperReviews sample_zone sample_clock (page sample_world) (Some ''2 days ago'') \<noteq> None \<and>
   fst (the (ScraperReviews sample_zone sample_clock (page sample_world) (Some ''2 days ago'')))
     = [sample_review ''Ann'' ''1 star'' ''1 day ago'']"
  by code_simp

lemma sample_pass_A:
  "advance sample_zone sample_clock None [Rendered [sample_element ''Ann'' ''1 star'' ''1 day ago'']] init \<noteq> None"
  by code_simp

lemma sample_pass_B:
  "advance sample_zone sample_clock (Some ''2 days ago'') [Rendered [sample_element ''Ann'' ''1 star'' ''1 day ago'']] init \<noteq> None"
  by code_simp

lemma sample_state_B:
  "map_values (scrapedReviews (iterations sample_zone sample_clock (Some ''2 days ago'')
      [Rendered [sample_element ''Ann'' ''1 star'' ''1 day ago'']] init))
     = [sample_review ''Ann'' ''1 star'' ''1 day ago'']
   \<and> map_has (scrapedReviews (iterations sample_zone sample_clock (Some ''2 days ago'')
      [Rendered [sample_element ''Ann'' ''1 star'' ''1 day ago'']] init))
        (reviewId (sample_review ''Ann'' ''1 star'' ''1 day ago''))"
  by code_simp

lemma sample_stream:
  "extracted 0 ([Rendered [sample_element ''Ann'' ''1 star'' ''1 day ago'']]
       @ [Rendered [sample_element ''Ann'' ''1 star'' ''1 day ago'',
                    sample_element ''Cat'' ''2 stars'' ''1 day ago'',
                    sample_element ''Ann'' ''1 star'' ''1 day ago'',
                    sample_element ''Bob'' ''5 stars'' ''3 days ago'',
                    sample_element ''Dan'' ''1 star'' ''3 days ago'']])
     = [sample_review ''Ann'' ''1 star'' ''1 day ago'', sample_review ''Cat'' ''2 stars'' ''1 day ago'',
        sample_review ''Ann'' ''1 star'' ''1 day ago'']
       @ sample_review ''Bob'' ''5 stars'' ''3 days ago'' # [sample_review ''Dan'' ''1 star'' ''3 days ago'']
   \<and> list_all (\<lambda>r. \<not> isHighRating r)
        [sample_review ''Ann'' ''1 star'' ''1 day ago'', sample_review ''Cat'' ''2 stars'' ''1 day ago'',
         sample_review ''Ann'' ''1 star'' ''1 day ago'']
   \<and> isHighRating (sample_review ''Bob'' ''5 stars'' ''3 days ago'')
   \<and> first_seen [] [sample_review ''Ann'' ''1 star'' ''1 day ago'', sample_review ''Cat'' ''2 stars'' ''1 day ago'',
         sample_review ''Ann'' ''1 star'' ''1 day ago'']
       = [sample_review ''Ann'' ''1 star'' ''1 day ago'', sample_review ''Cat'' ''2 stars'' ''1 day ago'']"
  by code_simp

text \<open>
  C6. After any sequence of iterations, in either mode, no two of the accumulated
  reviews have the same identity, and so for what ScraperReviews returns. The loop only
  ever appends to the map: the entries it holds are never changed or removed. A review
  whose identity is already in the map leaves the map as it is.
\<close>

theorem dedup_invariant:
  "distinct (map reviewId (map_values (scrapedReviews (iterations tza clock lsd script init))))
   \<and> (\<forall>rs tr. ScraperReviews tza clock script lsd = Some (rs, tr) \<longrightarrow> distinct (map reviewId rs))
   \<and> (\<exists>added. scrapedReviews (iterations tza clock lsd script st) = scrapedReviews st @ added)
   \<and> (map_has (scrapedReviews st) (reviewId r)
        \<longrightarrow> scrapedReviews (process_reviews tza clock lsd [r] st) = scrapedReviews st)"
proof (intro conjI allI impI)
  show d: "distinct (map reviewId (map_values (scrapedReviews (iterations tza clock lsd script init))))"
    by (rule keyed_values) (rule keyed_iterations [OF keyed_init])
  show "distinct (map reviewId rs)" if "ScraperReviews tza clock script lsd = Some (rs, tr)" for rs tr
  proof -
    from that obtain fin where f: "scroll_loop tza clock lsd script init = Some fin"
      and rs: "rs = map_values (scrapedReviews fin)"
      by (auto simp: ScraperReviews_def Let_def split: option.splits)
    from scroll_loop_iterations [OF f] d rs show ?thesis by simp
  qed
  show "\<exists>added. scrapedReviews (iterations tza clock lsd script st) = scrapedReviews st @ added"
    by (rule extends_iterations)
  show "scrapedReviews (process_reviews tza clock lsd [r] st) = scrapedReviews st"
    if "map_has (scrapedReviews st) (reviewId r)"
    using that by (cases lsd) (simp_all add: add_if_new_map Let_def)
qed

theorem dedup_invariant_witness:
  "distinct (map reviewId [sample_review ''Ann'' ''1 star'' ''1 day ago''])
   \<and> scrapedReviews (process_reviews sample_zone sample_clock (Some ''2 days ago'')
        [sample_review ''Ann'' ''1 star'' ''1 day ago'']
        (iterations sample_zone sample_clock (Some ''2 days ago'')
           [Rendered [sample_element ''Ann'' ''1 star'' ''1 day ago'']] init))
     = scrapedReviews (iterations sample_zone sample_clock (Some ''2 days ago'')
           [Rendered [sample_element ''Ann'' ''1 star'' ''1 day ago'']] init)"
proof -
  obtain harvested where
    h: "ScraperReviews sample_zone sample_clock (page sample_world) (Some ''2 days ago'')
          = Some ([sample_review ''Ann'' ''1 star'' ''1 day ago''], harvested)"
    using sample_harvest_B
    by (cases "ScraperReviews sample_zone sample_clock (page sample_world) (Some ''2 days ago'')") auto
  note d = dedup_invariant [of sample_zone sample_clock "Some ''2 days ago''" "page sample_world"
      "iterations sample_zone sample_clock (Some ''2 days ago'')
           [Rendered [sample_element ''Ann'' ''1 star'' ''1 day ago'']] init"
      "sample_review ''Ann'' ''1 star'' ''1 day ago''"]
  have "distinct (map reviewId [sample_review ''Ann'' ''1 star'' ''1 day ago''])"
    using d h by blast
  moreover have "scrapedReviews (process_reviews sample_zone sample_clock (Some ''2 days ago'')
        [sample_review ''Ann'' ''1 star'' ''1 day ago'']
        (iterations sample_zone sample_clock (Some ''2 days ago'')
           [Rendered [sample_element ''Ann'' ''1 star'' ''1 day ago'']] init))
     = scrapedReviews (iterations sample_zone sample_clock (Some ''2 days ago'')
           [Rendered [sample_element ''Ann'' ''1 star'' ''1 day ago'']] init)"
    using d sample_state_B by blast
  ultimately show ?thesis by blast
qed

subsection \<open>A failing iteration\<close>

lemma advance_running: "advance tza clock lsd pre st = Some st' \<Longrightarrow> isScrolling st'"
proof (induction pre arbitrary: st)
  case Nil
  then show ?case by (simp split: if_splits)
next
  case (Cons outcome rest)
  obtain c st1 where it: "iteration tza clock lsd outcome st = (c, st1)" by (cases "iteration tza clock lsd outcome st")
  show ?case using Cons.prems Cons.IH [of st1] it by (cases c) (simp_all split: if_splits)
qed

lemma advance_scroll_loop:
  "advance tza clock lsd pre st = Some st' \<Longrightarrow>
   scroll_loop tza clock lsd (pre @ rest) st = scroll_loop tza clock lsd rest st'"
proof (induction pre arbitrary: st)
  case Nil
  then show ?case by (simp split: if_splits)
next
  case (Cons outcome pre)
  obtain c st1 where it: "iteration tza clock lsd outcome st = (c, st1)" by (cases "iteration tza clock lsd outcome st")
  show ?case using Cons.prems Cons.IH [of st1] it by (cases c) (simp_all add: scroll_loop_Cons split: if_splits)
qed

lemma advance_iterations:
  "advance tza clock lsd pre st = Some st' \<Longrightarrow> iterations tza clock lsd pre st = st'"
proof (induction pre arbitrary: st)
  case Nil
  then show ?case by (simp split: if_splits)
next
  case (Cons outcome pre)
  obtain c st1 where it: "iteration tza clock lsd outcome st = (c, st1)" by (cases "iteration tza clock lsd outcome st")
  show ?case using Cons.prems Cons.IH [of st1] it by (cases c) (simp_all split: if_splits)
qed

text \<open>
  C8. If the loop has gone through the iterations of \<open>pre\<close> and is still scrolling
  in state \<open>st\<close>, and the next \<open>page.evaluate\<close> throws, then ScraperReviews returns
  at once: the result is the values accumulated in \<open>st\<close>, which is the state after
  \<open>pre\<close>, they are unique by identity, and the console receives the error line of the
  failed iteration. Nothing after the failure is consulted.
\<close>

theorem partial_result_on_failure:
  assumes "advance tza clock lsd pre init = Some st"
  shows "ScraperReviews tza clock (pre @ Throws # rest) lsd
           = Some (map_values (scrapedReviews st),
                   trace st @ [Evaluate (processedElementsCount st), Error_scroll_iteration,
                               Log_completed (map_size (scrapedReviews st))])
         \<and> iterations tza clock lsd pre init = st
         \<and> distinct (map reviewId (map_values (scrapedReviews st)))"
proof -
  define fin where "fin = (emit Error_scroll_iteration (emit (Evaluate (processedElementsCount st)) st))\<lparr>isScrolling := False\<rparr>"
  have run: "isScrolling st" using assms by (rule advance_running)
  have it: "iterations tza clock lsd pre init = st" using assms by (rule advance_iterations)
  have "scroll_loop tza clock lsd (pre @ Throws # rest) init = scroll_loop tza clock lsd (Throws # rest) st"
    using assms by (rule advance_scroll_loop)
  also have "\<dots> = Some fin"
    using run by (simp add: scroll_loop_Cons iteration_def Let_def fin_def)
  finally have l: "scroll_loop tza clock lsd (pre @ Throws # rest) init = Some fin" .
  have k: "keyed (scrapedReviews st)" using keyed_iterations [OF keyed_init, of tza clock lsd pre] it by simp
  have "ScraperReviews tza clock (pre @ Throws # rest) lsd
           = Some (map_values (scrapedReviews st),
                   trace st @ [Evaluate (processedElementsCount st), Error_scroll_iteration,
                               Log_completed (map_size (scrapedReviews st))])"
    by (simp add: ScraperReviews_def l Let_def fin_def map_values_def map_size_def)
  moreover have "distinct (map reviewId (map_values (scrapedReviews st)))"
    using k by (rule keyed_values)
  ultimately show ?thesis using it by simp
qed

theorem partial_result_on_failure_witness:
  "\<exists>tr. ScraperReviews sample_zone sample_clock
      ([Rendered [sample_element ''Ann'' ''1 star'' ''1 day ago'']] @ Throws # page sample_world)
      (Some ''2 days ago'')
     = Some ([sample_review ''Ann'' ''1 star'' ''1 day ago''], tr)
     \<and> Error_scroll_iteration \<in> set tr"
proof -
  obtain st where a: "advance sample_zone sample_clock (Some ''2 days ago'')
      [Rendered [sample_element ''Ann'' ''1 star'' ''1 day ago'']] init = Some st"
    using sample_pass_B by auto
  note t = partial_result_on_failure [OF a, of "page sample_world"]
  note r = t [THEN conjunct1]
  note i = t [THEN conjunct2, THEN conjunct1]
  have v: "map_values (scrapedReviews st) = [sample_review ''Ann'' ''1 star'' ''1 day ago'']"
    using sample_state_B [unfolded i] by (rule conjunct1)
  show ?thesis unfolding r v by simp
qed

subsection \<open>Without a cutoff\<close>

lemma first_seen_cong: "set a = set b \<Longrightarrow> first_seen a rs = first_seen b rs"
proof (induction rs arbitrary: a b)
  case Nil
  then show ?case by simp
next
  case (Cons r rs)
  have "set (reviewId r # a) = set (reviewId r # b)" using Cons.prems by simp
  then have "first_seen (reviewId r # a) rs = first_seen (reviewId r # b) rs" by (rule Cons.IH)
  moreover have "first_seen a rs = first_seen b rs" using Cons.prems by (rule Cons.IH)
  ultimately show ?case using Cons.prems by simp
qed

lemma first_seen_subset: "set (first_seen seen rs) \<subseteq> set rs"
  by (induction rs arbitrary: seen) auto

lemma first_seen_ids:
  "set (map reviewId (first_seen seen rs)) \<union> set seen = set (map reviewId rs) \<union> set seen"
proof (induction rs arbitrary: seen)
  case Nil
  then show ?case by simp
next
  case (Cons x xs)
  show ?case
  proof (cases "reviewId x \<in> set seen")
    case True
    then show ?thesis using Cons.IH [of seen] by auto
  next
    case False
    have "set (map reviewId (first_seen (reviewId x # seen) xs)) \<union> set (reviewId x # seen)
        = set (map reviewId xs) \<union> set (reviewId x # seen)"
      by (rule Cons.IH)
    then have "\<forall>y. y \<in> set (map reviewId (first_seen (reviewId x # seen) xs)) \<union> set (reviewId x # seen)
        \<longleftrightarrow> y \<in> set (map reviewId xs) \<union> set (reviewId x # seen)"
      by simp
    then show ?thesis using False by (simp add: set_eq_iff)
  qed
qed

lemma first_seen_append:
  "first_seen seen (xs @ ys) = first_seen seen xs @ first_seen (map reviewId xs @ seen) ys"
proof (induction xs arbitrary: seen)
  case Nil
  then show ?case by simp
next
  case (Cons x xs)
  show ?case
  proof (cases "reviewId x \<in> set seen")
    case True
    have c: "first_seen (reviewId x # map reviewId xs @ seen) ys = first_seen (map reviewId xs @ seen) ys"
      by (rule first_seen_cong) (use True in auto)
    show ?thesis using True Cons.IH [of seen] c by simp
  next
    case False
    have c: "first_seen (reviewId x # map reviewId xs @ seen) ys
           = first_seen (map reviewId xs @ reviewId x # seen) ys"
      by (rule first_seen_cong) auto
    show ?thesis using False Cons.IH [of "reviewId x # seen"] c by simp
  qed
qed

lemma process_A_scrolling:
  "isScrolling (process_reviews tza clock None rs st)
     = (isScrolling st \<and> list_all (\<lambda>r. \<not> isHighRating r) rs)"
  by (induction rs arbitrary: st) simp_all

lemma process_A_low:
  "list_all (\<lambda>r. \<not> isHighRating r) rs \<Longrightarrow>
   scrapedReviews (process_reviews tza clock None rs st)
     = scrapedReviews st @ entries (first_seen (map fst (scrapedReviews st)) rs)"
proof (induction rs arbitrary: st)
  case Nil
  then show ?case by (simp add: entries_def)
next
  case (Cons r rs)
  then have low: "\<not> isHighRating r" "list_all (\<lambda>r. \<not> isHighRating r) rs" by simp_all
  note IH = Cons.IH [OF low(2), of "add_if_new r st"]
  show ?case
  proof (cases "map_has (scrapedReviews st) (reviewId r)")
    case True
    then show ?thesis using low IH by (simp add: add_if_new_map map_has_def)
  next
    case False
    have "first_seen (map fst (scrapedReviews st) @ [reviewId r]) rs
        = first_seen (reviewId r # map fst (scrapedReviews st)) rs"
      by (rule first_seen_cong) auto
    then show ?thesis using False low IH by (simp add: add_if_new_map map_has_def entries_def)
  qed
qed

lemma process_A_high:
  "list_all (\<lambda>r. \<not> isHighRating r) lows \<Longrightarrow> isHighRating h \<Longrightarrow>
   scrapedReviews (process_reviews tza clock None (lows @ h # later) st)
     = scrapedReviews st @ entries (first_seen (map fst (scrapedReviews st)) lows)"
proof (induction lows arbitrary: st)
  case Nil
  then show ?case by (simp add: entries_def)
next
  case (Cons r rs)
  then have low: "\<not> isHighRating r" "list_all (\<lambda>r. \<not> isHighRating r) rs" by simp_all
  note IH = Cons.IH [OF low(2) Cons.prems(2), of "add_if_new r st"]
  show ?case
  proof (cases "map_has (scrapedReviews st) (reviewId r)")
    case True
    then show ?thesis using low IH by (simp add: add_if_new_map map_has_def)
  next
    case False
    have "first_seen (map fst (scrapedReviews st) @ [reviewId r]) rs
        = first_seen (reviewId r # map fst (scrapedReviews st)) rs"
      by (rule first_seen_cong) auto
    then show ?thesis using False low IH by (simp add: add_if_new_map map_has_def entries_def)
  qed
qed

lemma iteration_rendered:
  "iteration tza clock lsd (Rendered els) st =
     (Next, no_new_check (length (newElements els (processedElementsCount st)))
        (let st2 = process_reviews tza clock lsd
                     (reviews_of (newElements els (processedElementsCount st)))
                     ((emit (Log_reviews (reviews_of (newElements els (processedElementsCount st))))
                        (emit (Evaluate (processedElementsCount st)) st))
                       \<lparr>processedElementsCount := length els, newReviewsAdded := 0\<rparr>)
         in emit (Log_counts (length (newElements els (processedElementsCount st)))
                    (newReviewsAdded st2) (map_size (scrapedReviews st2))) st2))"
  by (simp add: iteration_def in_page_def Let_def)

lemma process_count [simp]:
  "processedElementsCount (process_reviews tza clock lsd rs st) = processedElementsCount st"
  by (induction tza clock lsd rs st rule: process_reviews.induct)
     (auto simp: Let_def split: option.splits)

lemma iteration_count:
  "processedElementsCount (snd (iteration tza clock lsd (Rendered els) st)) = length els"
  by (simp add: iteration_rendered Let_def)

lemma iteration_A_scrolling:
  "isScrolling (snd (iteration tza clock None (Rendered els) st)) \<Longrightarrow>
   list_all (\<lambda>r. \<not> isHighRating r) (reviews_of (newElements els (processedElementsCount st)))"
proof (rule ccontr)
  assume run: "isScrolling (snd (iteration tza clock None (Rendered els) st))"
  assume "\<not> list_all (\<lambda>r. \<not> isHighRating r) (reviews_of (newElements els (processedElementsCount st)))"
  then have "\<not> isScrolling (process_reviews tza clock None
                     (reviews_of (newElements els (processedElementsCount st)))
                     ((emit (Log_reviews (reviews_of (newElements els (processedElementsCount st))))
                        (emit (Evaluate (processedElementsCount st)) st))
                       \<lparr>processedElementsCount := length els, newReviewsAdded := 0\<rparr>))"
    by (simp add: process_A_scrolling)
  then have "\<not> isScrolling (snd (iteration tza clock None (Rendered els) st))"
    by (simp add: iteration_rendered Let_def no_new_check_stopped)
  with run show False by simp
qed

lemma advance_A:
  "advance tza clock None pre st0 = Some st \<Longrightarrow>
     list_all (\<lambda>r. \<not> isHighRating r) (extracted (processedElementsCount st0) pre)
     \<and> scrapedReviews st = scrapedReviews st0
          @ entries (first_seen (map fst (scrapedReviews st0)) (extracted (processedElementsCount st0) pre))
     \<and> extracted (processedElementsCount st0) (pre @ rest)
          = extracted (processedElementsCount st0) pre @ extracted (processedElementsCount st) rest"
proof (induction pre arbitrary: st0)
  case Nil
  then show ?case by (simp add: entries_def split: if_splits)
next
  case (Cons outcome pre)
  from Cons.prems have run0: "isScrolling st0" by (simp split: if_splits)
  obtain c st1 where it: "iteration tza clock None outcome st0 = (c, st1)"
    by (cases "iteration tza clock None outcome st0")
  from Cons.prems run0 it have c: "c = Next" and adv: "advance tza clock None pre st1 = Some st"
    by (cases c; simp)+
  obtain els where o: "outcome = Rendered els"
    using it c by (cases outcome) (simp_all add: iteration_def Let_def)
  define batch where "batch = reviews_of (newElements els (processedElementsCount st0))"
  have st1: "st1 = snd (iteration tza clock None (Rendered els) st0)" using it o by simp
  have run1: "isScrolling st1"
    using adv by (cases pre) (simp_all split: if_splits)
  have low: "list_all (\<lambda>r. \<not> isHighRating r) batch"
    unfolding batch_def using run1 unfolding st1 by (rule iteration_A_scrolling)
  have cnt: "processedElementsCount st1 = length els" unfolding st1 by (rule iteration_count)
  have m1: "scrapedReviews st1 = scrapedReviews st0 @ entries (first_seen (map fst (scrapedReviews st0)) batch)"
    unfolding st1 iteration_map using process_A_low [OF low, of tza clock] by (simp add: batch_def)
  note IH = Cons.IH [OF adv]
  have keys: "set (map fst (scrapedReviews st1)) = set (map reviewId batch @ map fst (scrapedReviews st0))"
    using first_seen_ids [of "map fst (scrapedReviews st0)" batch]
    by (simp add: m1 entries_def comp_def Un_commute)
  have fs: "first_seen (map fst (scrapedReviews st1)) xs
          = first_seen (map reviewId batch @ map fst (scrapedReviews st0)) xs" for xs
    using keys by (rule first_seen_cong)
  have e: "extracted (processedElementsCount st0) (outcome # pre) = batch @ extracted (length els) pre"
    by (simp add: o batch_def)
  have "list_all (\<lambda>r. \<not> isHighRating r) (extracted (processedElementsCount st0) (outcome # pre))"
    using low IH by (simp add: e cnt)
  moreover have "scrapedReviews st = scrapedReviews st0
          @ entries (first_seen (map fst (scrapedReviews st0)) (extracted (processedElementsCount st0) (outcome # pre)))"
  proof -
    have "scrapedReviews st = scrapedReviews st1
            @ entries (first_seen (map fst (scrapedReviews st1)) (extracted (length els) pre))"
      using IH by (simp add: cnt)
    then have "scrapedReviews st = scrapedReviews st1
            @ entries (first_seen (map reviewId batch @ map fst (scrapedReviews st0)) (extracted (length els) pre))"
      by (simp only: fs)
    then show ?thesis by (simp add: e m1 first_seen_append entries_def)
  qed
  moreover have "extracted (processedElementsCount st0) ((outcome # pre) @ rest)
          = extracted (processedElementsCount st0) (outcome # pre) @ extracted (processedElementsCount st) rest"
    using IH by (simp add: o cnt)
  ultimately show ?case by simp
qed

lemma split_at_first_high:
  assumes eq: "xs @ b = before @ h # later"
    and lx: "list_all (\<lambda>r. \<not> isHighRating r) xs"
    and lb: "list_all (\<lambda>r. \<not> isHighRating r) before"
    and h: "isHighRating h"
  shows "\<exists>lows. before = xs @ lows \<and> b = lows @ h # later"
proof -
  from eq obtain us where "(xs = before @ us \<and> us @ b = h # later) \<or> (xs @ us = before \<and> b = us @ h # later)"
    unfolding append_eq_append_conv2 by blast
  then show ?thesis
  proof
    assume a: "xs = before @ us \<and> us @ b = h # later"
    show ?thesis
    proof (cases us)
      case Nil
      then show ?thesis using a by simp
    next
      case (Cons u us')
      then have "u = h" using a by simp
      then have "h \<in> set xs" using a Cons by simp
      then show ?thesis using lx h by (simp add: list_all_iff)
    qed
  next
    assume "xs @ us = before \<and> b = us @ h # later"
    then show ?thesis by blast
  qed
qed

text \<open>
  C4. Without a cutoff: if the loop reaches the rendering \<open>els\<close> and the stream
  extracted up to and including it is \<open>before @ h # later\<close>, where \<open>h\<close> is the first
  record with a high rating, then ScraperReviews returns the unique items of \<open>before\<close>
  in order of first occurrence, the loop ends with the flag cleared, \<open>h\<close> is not among
  the results, and the records of the batch after \<open>h\<close> are not processed.
\<close>

theorem saturation_stop:
  assumes adv: "advance tza clock None pre init = Some st"
    and ex: "extracted 0 (pre @ [Rendered els]) = before @ h # later"
    and lb: "list_all (\<lambda>r. \<not> isHighRating r) before"
    and h: "isHighRating h"
  shows "ScraperReviews tza clock (pre @ Rendered els # rest) None
           = Some (first_seen [] before,
                   trace (snd (iteration tza clock None (Rendered els) st))
                     @ [Log_completed (length (first_seen [] before))])
         \<and> scroll_loop tza clock None (pre @ Rendered els # rest) init
             = Some (snd (iteration tza clock None (Rendered els) st))
         \<and> \<not> isScrolling (snd (iteration tza clock None (Rendered els) st))
         \<and> h \<notin> set (first_seen [] before)
         \<and> process_reviews tza clock None (reviews_of (newElements els (processedElementsCount st))) st
             = process_reviews tza clock None
                 (take (length before - length (extracted 0 pre) + 1)
                    (reviews_of (newElements els (processedElementsCount st)))) st"
proof -
  define batch where "batch = reviews_of (newElements els (processedElementsCount st))"
  from advance_A [OF adv, of "[Rendered els]"]
  have lx: "list_all (\<lambda>r. \<not> isHighRating r) (extracted 0 pre)"
    and m: "scrapedReviews st = entries (first_seen [] (extracted 0 pre))"
    and e: "extracted 0 (pre @ [Rendered els]) = extracted 0 pre @ batch"
    by (simp_all add: init_def batch_def)
  from split_at_first_high [OF ex [unfolded e] lx lb h] obtain lows
    where b: "before = extracted 0 pre @ lows" and bt: "batch = lows @ h # later" by blast
  have ll: "list_all (\<lambda>r. \<not> isHighRating r) lows" using lb b by simp
  define fin where "fin = snd (iteration tza clock None (Rendered els) st)"
  have run: "isScrolling st" using adv by (rule advance_running)
  have stop: "\<not> isScrolling fin"
  proof
    assume "isScrolling fin"
    then have "list_all (\<lambda>r. \<not> isHighRating r) batch"
      unfolding fin_def batch_def by (rule iteration_A_scrolling)
    then show False using bt h by simp
  qed
  have it: "iteration tza clock None (Rendered els) st = (Next, fin)"
    by (simp add: fin_def iteration_rendered)
  have "scroll_loop tza clock None (pre @ Rendered els # rest) init
      = scroll_loop tza clock None (Rendered els # rest) st"
    using adv by (rule advance_scroll_loop)
  also have "\<dots> = scroll_loop tza clock None rest fin"
    using run it by (simp add: scroll_loop_Cons)
  also have "\<dots> = Some fin" using stop by (rule scroll_loop_stopped)
  finally have l: "scroll_loop tza clock None (pre @ Rendered els # rest) init = Some fin" .
  have keys: "set (map fst (scrapedReviews st)) = set (map reviewId (extracted 0 pre) @ [])"
    using first_seen_ids [of "[]" "extracted 0 pre"] by (simp add: m entries_def comp_def)
  have "scrapedReviews fin = scrapedReviews st @ entries (first_seen (map fst (scrapedReviews st)) lows)"
    unfolding fin_def iteration_map
    using process_A_high [OF ll h, of tza clock later] by (simp add: batch_def [symmetric] bt)
  also have "first_seen (map fst (scrapedReviews st)) lows = first_seen (map reviewId (extracted 0 pre) @ []) lows"
    using keys by (rule first_seen_cong)
  finally have "scrapedReviews fin = entries (first_seen [] before)"
    by (simp add: m b first_seen_append entries_def)
  then have v: "map_values (scrapedReviews fin) = first_seen [] before"
    by (simp add: map_values_def entries_def comp_def)
  have nh: "h \<notin> set (first_seen [] before)"
  proof
    assume "h \<in> set (first_seen [] before)"
    then have "h \<in> set before" using first_seen_subset [of "[]" before] by auto
    then show False using lb h by (simp add: list_all_iff)
  qed
  have cut: "process_reviews tza clock None (lows @ h # later) s
           = process_reviews tza clock None (lows @ [h]) s" for s
    using ll h by (induction lows arbitrary: s) simp_all
  have tk: "take (length before - length (extracted 0 pre) + 1) batch = lows @ [h]"
    by (simp add: b bt)
  have "ScraperReviews tza clock (pre @ Rendered els # rest) None
      = Some (first_seen [] before, trace fin @ [Log_completed (length (first_seen [] before))])"
    by (simp add: ScraperReviews_def l Let_def v)
  moreover have "process_reviews tza clock None batch st
      = process_reviews tza clock None (take (length before - length (extracted 0 pre) + 1) batch) st"
    unfolding tk unfolding bt by (rule cut)
  ultimately show ?thesis using l stop nh unfolding fin_def batch_def by simp
qed

theorem saturation_stop_witness:
  "\<exists>tr. ScraperReviews sample_zone sample_clock
      ([Rendered [sample_element ''Ann'' ''1 star'' ''1 day ago'']]
       @ Rendered [sample_element ''Ann'' ''1 star'' ''1 day ago'',
                   sample_element ''Cat'' ''2 stars'' ''1 day ago'',
                   sample_element ''Ann'' ''1 star'' ''1 day ago'',
                   sample_element ''Bob'' ''5 stars'' ''3 days ago'',
                   sample_element ''Dan'' ''1 star'' ''3 days ago'']
       # [Throws]) None
     = Some ([sample_review ''Ann'' ''1 star'' ''1 day ago'', sample_review ''Cat'' ''2 stars'' ''1 day ago''], tr)"
proof -
  obtain st where a: "advance sample_zone sample_clock None [Rendered [sample_element ''Ann'' ''1 star'' ''1 day ago'']] init = Some st"
    using sample_pass_A by auto
  from sample_stream have
    ex: "extracted 0 ([Rendered [sample_element ''Ann'' ''1 star'' ''1 day ago'']]
       @ [Rendered [sample_element ''Ann'' ''1 star'' ''1 day ago'',
                    sample_element ''Cat'' ''2 stars'' ''1 day ago'',
                    sample_element ''Ann'' ''1 star'' ''1 day ago'',
                    sample_element ''Bob'' ''5 stars'' ''3 days ago'',
                    sample_element ''Dan'' ''1 star'' ''3 days ago'']])
     = [sample_review ''Ann'' ''1 star'' ''1 day ago'', sample_review ''Cat'' ''2 stars'' ''1 day ago'',
        sample_review ''Ann'' ''1 star'' ''1 day ago'']
       @ sample_review ''Bob'' ''5 stars'' ''3 days ago'' # [sample_review ''Dan'' ''1 star'' ''3 days ago'']"
    and low: "list_all (\<lambda>r. \<not> isHighRating r)
        [sample_review ''Ann'' ''1 star'' ''1 day ago'', sample_review ''Cat'' ''2 stars'' ''1 day ago'',
         sample_review ''Ann'' ''1 star'' ''1 day ago'']"
    and high: "isHighRating (sample_review ''Bob'' ''5 stars'' ''3 days ago'')"
    and fs: "first_seen [] [sample_review ''Ann'' ''1 star'' ''1 day ago'', sample_review ''Cat'' ''2 stars'' ''1 day ago'',
         sample_review ''Ann'' ''1 star'' ''1 day ago'']
       = [sample_review ''Ann'' ''1 star'' ''1 day ago'', sample_review ''Cat'' ''2 stars'' ''1 day ago'']"
    by blast+
  note t = saturation_stop [OF a ex low high, of "[Throws]"]
  show ?thesis unfolding t [THEN conjunct1] fs by simp
qed

subsection \<open>With a cutoff\<close>

lemma process_stays_stopped:
  "\<not> isScrolling st \<Longrightarrow> \<not> isScrolling (process_reviews tza clock lsd rs st)"
  by (induction tza clock lsd rs st rule: process_reviews.induct)
     (auto simp: Let_def split: option.splits)

lemma older_record_clears_flag:
  assumes "d \<noteq> []"
    and "isDateBefore (parseRelativeDate tza (clock (reads st)) (reviewPostedAt r))
                      (parseRelativeDate tza (clock (reads st + 1)) d) = Some False"
  shows "\<not> isScrolling (process_reviews tza clock (Some d) (r # rs) st)"
  using assms by (simp add: Let_def process_stays_stopped)

lemma cutoff_example:
  "ScraperReviews sample_zone sample_clock
     [Rendered [sample_element ''Ann'' ''1 star'' ''1 day ago'',
                sample_element ''Ann'' ''1 star'' ''1 day ago'',
                sample_element ''Bob'' ''2 stars'' ''3 days ago'',
                sample_element ''Cid'' ''1 star'' ''5 days ago'']]
     (Some ''2 days ago'') \<noteq> None
   \<and> fst (the (ScraperReviews sample_zone sample_clock
     [Rendered [sample_element ''Ann'' ''1 star'' ''1 day ago'',
                sample_element ''Ann'' ''1 star'' ''1 day ago'',
                sample_element ''Bob'' ''2 stars'' ''3 days ago'',
                sample_element ''Cid'' ''1 star'' ''5 days ago'']]
     (Some ''2 days ago''))) = [sample_review ''Ann'' ''1 star'' ''1 day ago'']"
  by code_simp

text \<open>
  C2. The specification says that a record whose comparison is null is skipped and leaves the
  flag alone. The source tests \<open>isStopedAt === true\<close> and treats everything else in
  the \<open>else\<close> branch: with the cutoff "2 days ago", a first rendering whose only
  review has no date (posted at "Unknown date", comparison null) clears the flag. The
  loop ends after that one iteration, the second rendering is never read and the
  result is empty.
\<close>

theorem null_comparison_stops_harvest:
  "isDateBefore (parseRelativeDate sample_zone (sample_clock 0) ''Unknown date'')
                (parseRelativeDate sample_zone (sample_clock 1) ''2 days ago'') = None
   \<and> ScraperReviews sample_zone sample_clock
       [Rendered [undated_element ''Zed'' ''1 star''],
        Rendered [undated_element ''Zed'' ''1 star'', sample_element ''Ann'' ''1 star'' ''1 day ago'']]
       (Some ''2 days ago'')
     = Some ([], [Evaluate 0, Log_reviews [sample_review ''Zed'' ''1 star'' ''Unknown date''],
                  Log_after_last_scraped_date ''Zed_Slow service'', Log_counts 1 0 0, Log_completed 0])"
  by code_simp

text \<open>
  C5. The specification says that once a record older than the cutoff has cleared the flag, no
  further record of the batch is accepted. The cutoff branch of the source has no
  \<open>break\<close>: with the cutoff "2 days ago" and one rendering holding a review posted
  3 days ago followed by one posted 1 day ago, the first clears the flag and the second
  is still added to the results.
\<close>

theorem accepted_after_cutoff_fired:
  "ScraperReviews sample_zone sample_clock
       [Rendered [sample_element ''Cid'' ''1 star'' ''3 days ago'', sample_element ''Ann'' ''1 star'' ''1 day ago'']]
       (Some ''2 days ago'')
     = Some ([sample_review ''Ann'' ''1 star'' ''1 day ago''],
             [Evaluate 0,
              Log_reviews [sample_review ''Cid'' ''1 star'' ''3 days ago'', sample_review ''Ann'' ''1 star'' ''1 day ago''],
              Log_after_last_scraped_date ''Cid_Slow service'', Log_counts 2 1 1, Log_completed 1])"
  by code_simp

subsection \<open>The safety limit\<close>

declare ScrapeReviews_loop.simps [simp del]

lemma extract_sample:
  "name \<noteq> [] \<Longrightarrow> extract_review (sample_element name label posted) = Some (sample_review name label posted)"
  by (simp add: sample_element_def sample_review_def substring0_def Let_def)

lemma reviews_of_crowd: "reviews_of (crowd n) = crowd_reviews n"
  by (simp add: reviews_of_def crowd_def crowd_reviews_def List.map_filter_def filter_map comp_def
      extract_sample)

lemma one_star_low: "\<not> isHighRating (sample_review name ''1 star'' posted)"
  by (simp add: sample_review_def)

lemma crowd_low: "list_all (\<lambda>r. \<not> isHighRating r) (crowd_reviews n)"
  by (simp add: crowd_reviews_def list_all_iff one_star_low)

lemma crowd_distinct: "distinct (map reviewId (crowd_reviews n))"
proof -
  have "inj_on (\<lambda>i. replicate (Suc i) CHR ''x'' @ ''_Slow service'') {0..<n}"
    by (rule inj_onI) (metis append_same_eq length_replicate nat.inject)
  then show ?thesis
    by (simp add: crowd_reviews_def comp_def sample_review_def distinct_map)
qed

lemma first_seen_distinct:
  "distinct (map reviewId rs) \<Longrightarrow> set (map reviewId rs) \<inter> set seen = {} \<Longrightarrow> first_seen seen rs = rs"
  by (induction rs arbitrary: seen) auto

lemma legacy_low:
  "list_all (\<lambda>r. \<not> isHighRating r) rs \<Longrightarrow>
   scrapedReviews (ScrapeReviews_reviews rs st)
     = scrapedReviews st @ entries (first_seen (map fst (scrapedReviews st)) rs)
   \<and> isScrolling (ScrapeReviews_reviews rs st) = isScrolling st
   \<and> noNewElementsCount (ScrapeReviews_reviews rs st) = noNewElementsCount st"
proof (induction rs arbitrary: st)
  case Nil
  then show ?case by (simp add: entries_def)
next
  case (Cons r rs)
  then have low: "\<not> isHighRating r" "list_all (\<lambda>r. \<not> isHighRating r) rs" by simp_all
  show ?case
  proof (cases "map_has (scrapedReviews st) (reviewId r)")
    case True
    then show ?thesis using low Cons.IH [OF low(2), of st] by (simp add: map_has_def)
  next
    case False
    define st1 where "st1 = st\<lparr>scrapedReviews := map_set (scrapedReviews st) (reviewId r) r,
                        newReviewsAdded := newReviewsAdded st + 1\<rparr>"
    have m: "scrapedReviews st1 = scrapedReviews st @ [(reviewId r, r)]"
      using False by (simp add: st1_def map_set_new)
    have "first_seen (map fst (scrapedReviews st) @ [reviewId r]) rs
        = first_seen (reviewId r # map fst (scrapedReviews st)) rs"
      by (rule first_seen_cong) auto
    then show ?thesis using False low Cons.IH [OF low(2), of st1] m
      by (simp add: map_has_def entries_def Let_def st1_def [symmetric]) (simp add: st1_def)
  qed
qed

lemma crowd_harvest:
  assumes "0 < n"
  shows "\<exists>st. advance tza clock None [Rendered (crowd n)] init = Some st
           \<and> map_size (scrapedReviews st) = n"
proof -
  define st0 where "st0 = (emit (Log_reviews (crowd_reviews n)) (emit (Evaluate 0) init))
                       \<lparr>processedElementsCount := length (crowd n), newReviewsAdded := 0\<rparr>"
  define st2 where "st2 = process_reviews tza clock None (crowd_reviews n) st0"
  define st where "st = snd (iteration tza clock None (Rendered (crowd n)) init)"
  have len: "length (crowd n) = n" by (simp add: crowd_def)
  have fs: "first_seen [] (crowd_reviews n) = crowd_reviews n"
    using crowd_distinct by (simp add: first_seen_distinct)
  have m2: "scrapedReviews st2 = entries (crowd_reviews n)"
    unfolding st2_def using process_A_low [OF crowd_low, of tza clock n st0]
    by (simp add: st0_def init_def fs)
  have r2: "isScrolling st2"
    unfolding st2_def by (simp add: process_A_scrolling crowd_low st0_def init_def)
  have st: "st = no_new_check n (emit (Log_counts n (newReviewsAdded st2) (map_size (scrapedReviews st2))) st2)"
    by (simp add: st_def iteration_rendered Let_def init_def newElements_def reviews_of_crowd len
        st2_def st0_def)
  have run: "isScrolling st" using assms r2 by (simp add: st no_new_check_def)
  have size: "map_size (scrapedReviews st) = n"
    by (simp add: st m2 map_size_def entries_def crowd_reviews_def)
  have "advance tza clock None [Rendered (crowd n)] init = Some st"
    using run by (simp add: st_def iteration_rendered init_def)
  with size show ?thesis by blast
qed

lemma crowd_legacy:
  assumes "1000 < n"
  shows "\<exists>fin. ScrapeReviews_loop (Rendered (crowd n) # rest) init = Some fin
           \<and> \<not> isScrolling fin \<and> map_size (scrapedReviews fin) = n
           \<and> trace fin = [Evaluate 0, Log_reviews (crowd_reviews n), Log_counts n (newReviewsAdded fin) n,
                           Log_stopping_limit]"
proof -
  define st0 where "st0 = (emit (Log_reviews (crowd_reviews n)) (emit (Evaluate 0) init))
                       \<lparr>processedElementsCount := length (crowd n), newReviewsAdded := 0\<rparr>"
  define st2 where "st2 = ScrapeReviews_reviews (crowd_reviews n) st0"
  have len: "length (crowd n) = n" by (simp add: crowd_def)
  have fs: "first_seen [] (crowd_reviews n) = crowd_reviews n"
    using crowd_distinct by (simp add: first_seen_distinct)
  note l = legacy_low [OF crowd_low, of n st0]
  have m2: "scrapedReviews st2 = entries (crowd_reviews n)"
    unfolding st2_def using l by (simp add: st0_def init_def fs)
  have s2: "map_size (scrapedReviews st2) = n"
    by (simp add: m2 map_size_def entries_def crowd_reviews_def)
  have t2: "trace st2 = [Evaluate 0, Log_reviews (crowd_reviews n)]"
  proof -
    have "trace (ScrapeReviews_reviews rs s) = trace s" for rs s
      by (induction rs arbitrary: s) (simp_all add: Let_def)
    then show ?thesis by (simp add: st2_def st0_def init_def)
  qed
  define fin where "fin = (emit Log_stopping_limit
      ((emit (Log_counts n (newReviewsAdded st2) n) st2)\<lparr>noNewElementsCount := 0\<rparr>))\<lparr>isScrolling := False\<rparr>"
  have it: "ScrapeReviews_iteration (Rendered (crowd n)) init = (Break, fin)"
    using assms s2 [unfolded st2_def st0_def]
    by (simp add: ScrapeReviews_iteration_def in_page_def Let_def init_def newElements_def
        reviews_of_crowd len st2_def st0_def fin_def)
  have "ScrapeReviews_loop (Rendered (crowd n) # rest) init = Some fin"
    by (simp add: ScrapeReviews_loop.simps [of "Rendered (crowd n) # rest"] it) (simp add: init_def)
  moreover have "\<not> isScrolling fin" by (simp add: fin_def)
  moreover have "map_size (scrapedReviews fin) = n" by (simp add: fin_def s2)
  moreover have "trace fin = [Evaluate 0, Log_reviews (crowd_reviews n), Log_counts n (newReviewsAdded fin) n,
                           Log_stopping_limit]"
    by (simp add: fin_def t2)
  ultimately show ?thesis by blast
qed

lemma ScrapeReviews_cap:
  "ScrapeReviews_iteration outcome st = (Next, st') \<Longrightarrow> map_size (scrapedReviews st') \<le> 1000"
  by (cases outcome) (auto simp: ScrapeReviews_iteration_def in_page_def Let_def split: if_splits)

text \<open>
  C3. The specification says that the loop stops once the map holds more than 1000 items.
  ScraperReviews has no such check: after one rendering of 1001 different low-rated
  reviews it holds 1001 items and is still scrolling. ScrapeReviews, the loop of
  index.ts, stops there with the flag cleared.
\<close>

theorem no_safety_cap:
  "(\<exists>st. advance sample_zone sample_clock None [Rendered (crowd 1001)] init = Some st
         \<and> map_size (scrapedReviews st) = 1001)
   \<and> (\<exists>fin. ScrapeReviews_loop [Rendered (crowd 1001)] init = Some fin
         \<and> \<not> isScrolling fin \<and> map_size (scrapedReviews fin) = 1001)"
proof
  show "\<exists>st. advance sample_zone sample_clock None [Rendered (crowd 1001)] init = Some st
         \<and> map_size (scrapedReviews st) = 1001"
    by (rule crowd_harvest) simp
  show "\<exists>fin. ScrapeReviews_loop [Rendered (crowd 1001)] init = Some fin
         \<and> \<not> isScrolling fin \<and> map_size (scrapedReviews fin) = 1001"
    using crowd_legacy [of 1001 "[]"] by auto
qed

section \<open>The entry points: what they resolve to\<close>

lemma run_steps_ok:
  "list_all (\<lambda>s. \<not> f s) ss \<Longrightarrow> run_steps f ss tr = (None, tr @ map Call ss)"
  by (induction ss arbitrary: tr) simp_all

lemma array_filter_final: "array_filter final_filter_callback xs = []"
  by (simp add: array_filter_def final_filter_callback_def)

lemma sample_world_fields:
  "zone sample_world = sample_zone" "now_at sample_world = sample_clock" "fails sample_world s = False"
  by (simp_all add: sample_world_def)

text \<open>
  C1. Whenever scrapeGoogleMapsReviews resolves, it resolves to undefined (an error was
  caught) or to the empty array. When no call throws and the harvest returns
  \<open>finalReviews\<close>, it logs them and resolves to the empty array, whatever was harvested:
  the callback of the final filter returns undefined for every item. It fails to
  resolve only if the harvest loop never ends.
\<close>

theorem scrapeGoogleMapsReviews_resolves_empty:
  "(\<forall>r tr. scrapeGoogleMapsReviews w = Some (r, tr) \<longrightarrow> r = Undefined \<or> r = Value [])
   \<and> (list_all (\<lambda>s. \<not> fails w s)
         [BrowserInstance, Goto_url, AddLanguage, Goto_en, ReviewsTab, FilterBy ''Lowest rating'',
          ScrollBy, PageClose, BrowserClose]
        \<and> ScraperReviews (zone w) (now_at w) (page w) None = Some (finalReviews, harvested)
      \<longrightarrow> (\<exists>tr. scrapeGoogleMapsReviews w = Some (Value [], tr)
                \<and> Log_final_reviews finalReviews \<in> set tr))
   \<and> (scrapeGoogleMapsReviews w = None
      \<longrightarrow> ScraperReviews (zone w) (now_at w) (page w) None = None)"
proof (intro conjI allI impI)
  fix r tr
  assume "scrapeGoogleMapsReviews w = Some (r, tr)"
  then show "r = Undefined \<or> r = Value []"
    unfolding scrapeGoogleMapsReviews_def
    by (auto simp: array_filter_final split: prod.splits option.splits)
next
  assume a: "list_all (\<lambda>s. \<not> fails w s)
         [BrowserInstance, Goto_url, AddLanguage, Goto_en, ReviewsTab, FilterBy ''Lowest rating'',
          ScrollBy, PageClose, BrowserClose]
        \<and> ScraperReviews (zone w) (now_at w) (page w) None = Some (finalReviews, harvested)"
  then have pre: "list_all (\<lambda>s. \<not> fails w s)
      [BrowserInstance, Goto_url, AddLanguage, Goto_en, ReviewsTab, FilterBy ''Lowest rating'', ScrollBy]"
    and post: "list_all (\<lambda>s. \<not> fails w s) [PageClose, BrowserClose]"
    by simp_all
  show "\<exists>tr. scrapeGoogleMapsReviews w = Some (Value [], tr) \<and> Log_final_reviews finalReviews \<in> set tr"
    unfolding scrapeGoogleMapsReviews_def
    using a by (simp add: run_steps_ok [OF pre] run_steps_ok [OF post] array_filter_final)
next
  assume "scrapeGoogleMapsReviews w = None"
  then show "ScraperReviews (zone w) (now_at w) (page w) None = None"
    unfolding scrapeGoogleMapsReviews_def
    by (auto split: prod.splits option.splits)
qed

theorem scrapeGoogleMapsReviews_resolves_empty_witness:
  "\<exists>tr. scrapeGoogleMapsReviews sample_world = Some (Value [], tr)
        \<and> Log_final_reviews [sample_review ''Ann'' ''1 star'' ''1 day ago''] \<in> set tr"
proof -
  obtain harvested where
    h: "ScraperReviews sample_zone sample_clock (page sample_world) None
          = Some ([sample_review ''Ann'' ''1 star'' ''1 day ago''], harvested)"
    using sample_harvest_A
    by (cases "ScraperReviews sample_zone sample_clock (page sample_world) None") auto
  show ?thesis
    using scrapeGoogleMapsReviews_resolves_empty
            [of sample_world "[sample_review ''Ann'' ''1 star'' ''1 day ago'']" harvested] h
    by (simp add: sample_world_fields)
qed



subsection \<open>The cutoff given to scrapeNewGoogleMapsReviews\<close>













end
